theory Spec2Isabelle
  imports Main
begin

section \<open>Text primitives of the interpreter\<close>

text \<open>
  \<^verbatim>\<open>SQM_GUI.py\<close> works on Python text. A text is modelled as a \<^typ>\<open>string\<close> whose
  characters are the code points below 256; \<^term>\<open>of_char c :: nat\<close> is the code point.
  The three built-ins the parser relies on (\<^verbatim>\<open>str.strip\<close>, \<^verbatim>\<open>str.upper\<close> and
  \<^verbatim>\<open>float\<close>) are written out below for that range, following CPython.
\<close>

subsection \<open>Substring test, prefix test, split with a limit of one\<close>

text \<open>\<^verbatim>\<open>s.startswith(p)\<close>\<close>

fun startswith :: "string \<Rightarrow> string \<Rightarrow> bool" where
  "startswith s [] = True"
| "startswith [] (p # ps) = False"
| "startswith (c # cs) (p # ps) = (c = p \<and> startswith cs ps)"

text \<open>\<^verbatim>\<open>p in s\<close>: some suffix of \<open>s\<close> starts with \<open>p\<close>.\<close>

fun contains :: "string \<Rightarrow> string \<Rightarrow> bool" where
  "contains p [] = (p = [])"
| "contains p (c # cs) = (startswith (c # cs) p \<or> contains p cs)"

text \<open>
  \<^verbatim>\<open>s.split(sep, 1)\<close> for a one-character separator: the text before the first
  separator and the text after it, or the whole text alone when there is no separator.
\<close>

definition split1 :: "char \<Rightarrow> string \<Rightarrow> string list" where
  "split1 sep s =
     (if sep \<in> set s
      then [takeWhile (\<lambda>c. c \<noteq> sep) s, tl (dropWhile (\<lambda>c. c \<noteq> sep) s)]
      else [s])"

subsection \<open>Whitespace and \<^verbatim>\<open>str.strip\<close>\<close>

text \<open>
  The code points below 256 that \<^verbatim>\<open>str.isspace\<close> accepts: tab, line feed, vertical
  tab, form feed, carriage return, the four separators 0x1C to 0x1F, space, next line
  (0x85) and no-break space (0xA0).
\<close>

definition py_isspace :: "char \<Rightarrow> bool" where
  "py_isspace c =
     (c \<in> set [CHR 0x09, CHR 0x0A, CHR 0x0B, CHR 0x0C, CHR 0x0D,
               CHR 0x1C, CHR 0x1D, CHR 0x1E, CHR 0x1F, CHR 0x20, CHR 0x85, CHR 0xA0])"

definition lstrip :: "string \<Rightarrow> string" where
  "lstrip s = dropWhile py_isspace s"

definition rstrip :: "string \<Rightarrow> string" where
  "rstrip s = rev (dropWhile py_isspace (rev s))"

text \<open>\<^verbatim>\<open>s.strip()\<close>\<close>

definition strip :: "string \<Rightarrow> string" where
  "strip s = rstrip (lstrip s)"

subsection \<open>\<^verbatim>\<open>str.upper\<close>\<close>

text \<open>
  Upper-casing may leave the range below 256 (\<open>0xB5\<close> becomes \<open>0x39C\<close>, \<open>0xFF\<close> becomes
  \<open>0x178\<close>) and may lengthen the text (\<open>0xDF\<close> becomes \<open>SS\<close>), so the result is a list of
  code points.
\<close>

definition upper_cp :: "char \<Rightarrow> nat list" where
  "upper_cp c =
     (let n = of_char c in
      if 97 \<le> n \<and> n \<le> 122 then [n - 32]
      else if n = 181 then [924]
      else if n = 223 then [83, 83]
      else if 224 \<le> n \<and> n \<le> 254 \<and> n \<noteq> 247 then [n - 32]
      else if n = 255 then [376]
      else [n])"

definition upper :: "string \<Rightarrow> nat list" where
  "upper s = concat (map upper_cp s)"

text \<open>The code points of a literal, for comparison with an upper-cased text.\<close>

definition codepoints :: "string \<Rightarrow> nat list" where
  "codepoints s = map of_char s"

subsection \<open>\<^verbatim>\<open>float\<close> applied to a text\<close>

text \<open>
  Only whether \<^verbatim>\<open>float(s)\<close> returns or raises \<^verbatim>\<open>ValueError\<close> matters to the
  parser; the number is discarded. CPython proceeds in four stages, kept apart here.
\<close>

definition is_digit :: "char \<Rightarrow> bool" where
  "is_digit c = (c \<in> set ''0123456789'')"

text \<open>The whitespace of the C locale, which the conversion strips by itself.\<close>

definition c_isspace :: "char \<Rightarrow> bool" where
  "c_isspace c = (c \<in> set [CHR 0x09, CHR 0x0A, CHR 0x0B, CHR 0x0C, CHR 0x0D, CHR 0x20])"

text \<open>
  Stage 1. An all-ASCII text is taken as it is. Otherwise every code point from 127 on
  is replaced: whitespace by a space, anything else (no decimal digit lies between 127
  and 255) by a question mark, at which the text is cut.
\<close>

fun to_ascii :: "string \<Rightarrow> string" where
  "to_ascii [] = []"
| "to_ascii (c # cs) =
     (if (of_char c :: nat) < 127 then c # to_ascii cs
      else if py_isspace c then CHR '' '' # to_ascii cs
      else ''?'')"

definition transform :: "string \<Rightarrow> string" where
  "transform s = (if \<forall>c \<in> set s. (of_char c :: nat) < 128 then s else to_ascii s)"

text \<open>
  Stage 2. Underscores are dropped; each must stand between two digits. The first
  argument is the previous character, if any.
\<close>

fun drop_underscores :: "char option \<Rightarrow> string \<Rightarrow> string option" where
  "drop_underscores prev [] = (if prev = Some CHR ''_'' then None else Some [])"
| "drop_underscores prev (c # cs) =
     (if c = CHR ''_'' then
        (case prev of
           None \<Rightarrow> None
         | Some p \<Rightarrow> if is_digit p then drop_underscores (Some c) cs else None)
      else if prev = Some CHR ''_'' \<and> \<not> is_digit c then None
      else map_option ((#) c) (drop_underscores (Some c) cs))"

text \<open>
  Stage 4, the number itself. Both scanners return the text left unread, or \<open>None\<close>
  when nothing could be read. The decimal scanner reads an optional sign, digits, an
  optional point with digits (at least one digit in all, at most \<open>10^9\<close> after the
  leading zeros), and an exponent only when it has a digit.
\<close>

definition skip_sign :: "string \<Rightarrow> string" where
  "skip_sign s =
     (case s of
        [] \<Rightarrow> []
      | c # cs \<Rightarrow> if c = CHR ''-'' \<or> c = CHR ''+'' then cs else s)"

definition scan_exponent :: "string \<Rightarrow> string" where
  "scan_exponent s =
     (case s of
        [] \<Rightarrow> []
      | c # cs \<Rightarrow>
          if c = CHR ''e'' \<or> c = CHR ''E'' then
            (let r = skip_sign cs in
             if takeWhile is_digit r = [] then s else dropWhile is_digit r)
          else s)"

definition MAX_DIGITS :: nat where
  "MAX_DIGITS = 1000000000"

text \<open>The digits after a decimal point, if there is one, and the text after them.\<close>

definition scan_fraction :: "string \<Rightarrow> string \<times> string" where
  "scan_fraction r =
     (case r of
        [] \<Rightarrow> ([], [])
      | c # cs \<Rightarrow>
          if c = CHR ''.'' then (takeWhile is_digit cs, dropWhile is_digit cs)
          else ([], r))"

definition scan_decimal :: "string \<Rightarrow> string option" where
  "scan_decimal s =
     (let s1 = skip_sign s;
          ip = takeWhile is_digit s1;
          (fp, r2) = scan_fraction (dropWhile is_digit s1);
          sig = dropWhile (\<lambda>c. c = CHR ''0'') (ip @ fp)
      in if ip = [] \<and> fp = [] then None
         else if length sig > MAX_DIGITS \<or> length fp > MAX_DIGITS then None
         else Some (scan_exponent r2))"

text \<open>
  The fallback scanner reads an optional sign and then \<open>inf\<close>, \<open>infinity\<close> or \<open>nan\<close>
  in any mixture of ASCII cases.
\<close>

definition ascii_lower :: "char \<Rightarrow> char" where
  "ascii_lower c =
     (case map_of (zip ''ABCDEFGHIJKLMNOPQRSTUVWXYZ'' ''abcdefghijklmnopqrstuvwxyz'') c of
        None \<Rightarrow> c
      | Some l \<Rightarrow> l)"

definition case_insensitive_match :: "string \<Rightarrow> string \<Rightarrow> bool" where
  "case_insensitive_match s t = startswith (map ascii_lower s) t"

definition parse_inf_or_nan :: "string \<Rightarrow> string option" where
  "parse_inf_or_nan p =
     (let s = skip_sign p in
      if case_insensitive_match s ''inf'' then
        (if case_insensitive_match (drop 3 s) ''inity'' then Some (drop 8 s)
         else Some (drop 3 s))
      else if case_insensitive_match s ''nan'' then Some (drop 3 s)
      else None)"

definition string_to_double :: "string \<Rightarrow> string option" where
  "string_to_double s =
     (case scan_decimal s of Some r \<Rightarrow> Some r | None \<Rightarrow> parse_inf_or_nan s)"

text \<open>
  Stage 3. Whitespace of the C locale is stripped at both ends; an empty remainder is
  refused, and the scanner has to read the remainder to its end.
\<close>

definition float_inner :: "string \<Rightarrow> bool" where
  "float_inner s =
     (let t = rev (dropWhile c_isspace (rev (dropWhile c_isspace s)))
      in t \<noteq> [] \<and> string_to_double t = Some [])"

text \<open>\<^verbatim>\<open>float(s)\<close> returns (\<open>True\<close>) or raises \<^verbatim>\<open>ValueError\<close> (\<open>False\<close>).\<close>

definition float_ok :: "string \<Rightarrow> bool" where
  "float_ok s =
     (let a = transform s in
      if CHR ''_'' \<in> set a then
        (case drop_underscores None a of None \<Rightarrow> False | Some b \<Rightarrow> float_inner b)
      else float_inner a)"

section \<open>The line parser\<close>

text \<open>
  Every failure of \<^verbatim>\<open>parse_lux_sqm\<close> is a \<^verbatim>\<open>ValueError\<close>; the constructors stand for
  its four messages and carry what the message interpolates: the line, the number of
  parts, or the text \<^verbatim>\<open>float\<close> refused. \<open>IndexError\<close> is the subscript \<^verbatim>\<open>[1]\<close> on
  a part without a colon.
\<close>

datatype error =
    NoMarkers string
  | WrongFieldCount nat string
  | BadPrefix string
  | NotAFloat string
  | IndexError

text \<open>\<^verbatim>\<open>part.split(":", 1)[1].strip()\<close>\<close>

definition after_colon :: "string \<Rightarrow> error + string" where
  "after_colon part =
     (case split1 CHR '':'' part of
        [k, v] \<Rightarrow> Inr (strip v)
      | _ \<Rightarrow> Inl IndexError)"

text \<open>\<^verbatim>\<open>float(s)\<close> as a statement: nothing is kept of the result.\<close>

definition check_float :: "string \<Rightarrow> error + unit" where
  "check_float s = (if float_ok s then Inr () else Inl (NotAFloat s))"

definition parse_lux_sqm :: "string \<Rightarrow> error + (string \<times> string)" where
  "parse_lux_sqm line =
     (if \<not> contains ''LUX:'' line \<or> \<not> contains ''SQM:'' line then Inl (NoMarkers line)
      else
        let parts = split1 CHR '','' line in
        if length parts \<noteq> 2 then Inl (WrongFieldCount (length parts) line)
        else
          let lux_part = strip (parts ! 0);
              sqm_part = strip (parts ! 1)
          in
          if \<not> startswith lux_part ''LUX:'' \<or> \<not> startswith sqm_part ''SQM:''
          then Inl (BadPrefix line)
          else
            case after_colon lux_part of
              Inl e \<Rightarrow> Inl e
            | Inr lux_str \<Rightarrow>
                (case after_colon sqm_part of
                   Inl e \<Rightarrow> Inl e
                 | Inr sqm_str \<Rightarrow>
                     (case check_float lux_str of
                        Inl e \<Rightarrow> Inl e
                      | Inr _ \<Rightarrow>
                          if upper sqm_str \<noteq> codepoints ''NAN'' then
                            (case check_float sqm_str of
                               Inl e \<Rightarrow> Inl e
                             | Inr _ \<Rightarrow> Inr (lux_str, sqm_str))
                          else Inr (lux_str, sqm_str))))"

section \<open>Requesting a reading\<close>

text \<open>
  The global \<^verbatim>\<open>ser\<close> is either \<^verbatim>\<open>None\<close> or a port object with its \<^verbatim>\<open>is_open\<close>
  flag. The calls made on the port are logged in \<open>wire\<close>, oldest first, so that
  what was written and whether a read took place can be read off the state. The three
  display variables, the status line and the message boxes shown so far complete the
  state. The debugging output on the terminal is left out.
\<close>

datatype serial_call =
    ResetInputBuffer
  | ResetOutputBuffer
  | Write string
  | Flush
  | Readline

text \<open>
  A warning box has a title and a text. The two error boxes show the text of the
  exception caught; they carry the \<^verbatim>\<open>ValueError\<close> of the parser, or the message of
  the \<^verbatim>\<open>SerialException\<close>.
\<close>

datatype dialog =
    ShowWarning string string
  | ShowParseError error
  | ShowSerialError string

record serial =
  is_open :: bool

record state =
  ser :: "serial option"
  wire :: "serial_call list"
  raw_var :: string
  lux_var :: string
  sqm_var :: string
  status_var :: string
  dialogs :: "dialog list"

text \<open>
  What the port does during one request: \<open>fault\<close> gives the message of the
  \<^verbatim>\<open>SerialException\<close> a call raises, if it raises, and \<open>reply\<close> is the text
  \<^verbatim>\<open>ser.readline().decode("utf-8", errors="ignore")\<close>, empty when the read timed out.
\<close>

record transport =
  fault :: "serial_call \<Rightarrow> string option"
  reply :: string

text \<open>The calls of a request in order, up to and including the first that raises.\<close>

fun perform :: "(serial_call \<Rightarrow> string option) \<Rightarrow> serial_call list
    \<Rightarrow> serial_call list \<times> string option" where
  "perform f [] = ([], None)"
| "perform f (c # cs) =
     (case f c of
        Some e \<Rightarrow> ([c], Some e)
      | None \<Rightarrow> (case perform f cs of (issued, r) \<Rightarrow> (c # issued, r)))"

definition request_calls :: "serial_call list" where
  "request_calls =
     [ResetInputBuffer, ResetOutputBuffer, Write [CHR ''R'', CHR 0x0A], Flush, Readline]"

definition show_box :: "dialog \<Rightarrow> state \<Rightarrow> state" where
  "show_box d st = st\<lparr>dialogs := dialogs st @ [d]\<rparr>"

text \<open>\<^verbatim>\<open>ser is None or not ser.is_open\<close>, negated.\<close>

definition connected :: "state \<Rightarrow> bool" where
  "connected st = (case ser st of None \<Rightarrow> False | Some p \<Rightarrow> is_open p)"

text \<open>
  The end of \<^verbatim>\<open>get_reading\<close>, once a line has arrived: the raw line is shown, then the
  two values or, on a \<^verbatim>\<open>ValueError\<close>, the placeholders and an error box. The handler
  catches \<^verbatim>\<open>ValueError\<close> only, so an \<open>IndexError\<close> would leave the function with
  the raw line shown and nothing else done.
\<close>

definition show_line :: "string \<Rightarrow> state \<Rightarrow> state" where
  "show_line line st =
     (let st2 = st\<lparr>raw_var := line\<rparr> in
      (case parse_lux_sqm line of
         Inr (lux_str, sqm_str) \<Rightarrow> st2\<lparr>lux_var := lux_str, sqm_var := sqm_str\<rparr>
       | Inl e \<Rightarrow>
           (if e = IndexError then st2
            else show_box (ShowParseError e) (st2\<lparr>lux_var := ''--'', sqm_var := ''--''\<rparr>))))"

definition get_reading :: "transport \<Rightarrow> state \<Rightarrow> state" where
  "get_reading t st =
     (if \<not> connected st then
        show_box (ShowWarning ''Not connected'' ''Please connect to a serial port first.'') st
      else
        (case perform (fault t) request_calls of
           (issued, r) \<Rightarrow>
             (let st1 = st\<lparr>wire := wire st @ issued\<rparr> in
              (case r of
                 Some e \<Rightarrow> show_box (ShowSerialError e) st1
               | None \<Rightarrow>
                   (let line = strip (reply t) in
                    if line = [] then
                      (show_box (ShowWarning ''Timeout'' ''No data received (timeout).'') st1)
                        \<lparr>raw_var := ''<no data>'', lux_var := ''--'', sqm_var := ''--''\<rparr>
                    else show_line line st1)))))"

text \<open>The display as the script builds it, before any connection.\<close>

definition initial_state :: state where
  "initial_state =
     \<lparr>ser = None, wire = [], raw_var = [], lux_var = ''--'', sqm_var = ''--'',
      status_var = ''Not connected'', dialogs = []\<rparr>"

section \<open>Notions used to state the properties\<close>

text \<open>A text made of whitespace only (possibly empty).\<close>

definition blank :: "string \<Rightarrow> bool" where
  "blank w = list_all py_isspace w"

text \<open>
  A numeric text: \<^verbatim>\<open>float\<close> accepts it, and it has no whitespace at either end
  (\<^verbatim>\<open>float\<close> itself would tolerate some).
\<close>

definition realnumber :: "string \<Rightarrow> bool" where
  "realnumber a = (float_ok a \<and> strip a = a)"

text \<open>A text that equals \<open>NAN\<close> once upper-cased, which is the test the parser makes.\<close>

definition nan_text :: "string \<Rightarrow> bool" where
  "nan_text s = (upper s = codepoints ''NAN'')"

text \<open>
  A character that no stage of \<^verbatim>\<open>float\<close> can read or skip: not a digit, a sign, a
  point, an exponent mark or an underscore, not a letter of \<open>infinity\<close> or \<open>nan\<close>, and
  not whitespace of the C locale.
\<close>

definition unreadable :: "char \<Rightarrow> bool" where
  "unreadable x =
     (\<not> is_digit x \<and> x \<notin> set ''+-.eE_'' \<and> ascii_lower x \<notin> set ''infinityan''
      \<and> \<not> c_isspace x)"

text \<open>
  The lux candidate of a line, where it exists: the trimmed text after the first colon
  of the trimmed first part of the split at the first comma. A first part without a
  colon has none.
\<close>

definition lux_candidate :: "string \<Rightarrow> string option" where
  "lux_candidate line =
     (case split1 CHR '','' line of
        [] \<Rightarrow> None
      | p # rest \<Rightarrow>
          (case split1 CHR '':'' (strip p) of
             [k, v] \<Rightarrow> Some (strip v)
           | _ \<Rightarrow> None))"

section \<open>Auxiliary facts\<close>

subsection \<open>Prefixes, substrings and splitting\<close>

lemma startswith_append: "startswith (p @ v) p"
  by (induction p) auto

lemma startswith_imp_contains: "startswith s p \<Longrightarrow> contains p s"
  by (cases s) (auto elim: startswith.elims)

lemma contains_append: "contains p (u @ p @ v)"
proof (induction u)
  case Nil
  show ?case using startswith_imp_contains [OF startswith_append] by simp
next
  case (Cons c u)
  then show ?case by simp
qed

lemma startswith_iff: "startswith s p \<longleftrightarrow> (\<exists>v. s = p @ v)"
  by (induction s p rule: startswith.induct) auto

lemma contains_iff: "contains p s \<longleftrightarrow> (\<exists>u v. s = u @ p @ v)"
proof (induction s)
  case Nil
  show ?case by auto
next
  case (Cons c s)
  show ?case
  proof
    assume "contains p (c # s)"
    then consider "startswith (c # s) p" | "contains p s" by auto
    then show "\<exists>u v. c # s = u @ p @ v"
    proof cases
      case 1
      then obtain v where "c # s = p @ v" using startswith_iff by blast
      then have "c # s = [] @ p @ v" by simp
      then show ?thesis by blast
    next
      case 2
      then obtain u v where "s = u @ p @ v" using Cons.IH by blast
      then have "c # s = (c # u) @ p @ v" by simp
      then show ?thesis by blast
    qed
  next
    assume "\<exists>u v. c # s = u @ p @ v"
    then obtain u v where "c # s = u @ p @ v" by blast
    then show "contains p (c # s)" using contains_append by metis
  qed
qed

lemma split1_no_sep: "sep \<notin> set s \<Longrightarrow> split1 sep s = [s]"
  by (simp add: split1_def)

lemma split1_first: "sep \<notin> set a \<Longrightarrow> split1 sep (a @ sep # b) = [a, b]"
  by (induction a) (auto simp: split1_def)

lemma length_split1: "length (split1 sep s) = (if sep \<in> set s then 2 else 1)"
  by (simp add: split1_def)


subsection \<open>Trimming\<close>

lemma blank_simps [simp]: "blank []" "blank (c # w) = (py_isspace c \<and> blank w)"
  "blank (u @ v) = (blank u \<and> blank v)"
  by (simp_all add: blank_def)

lemma lstrip_blank_append: "blank w \<Longrightarrow> lstrip (w @ s) = lstrip s"
  by (induction w) (simp_all add: lstrip_def)

lemma lstrip_id: "s \<noteq> [] \<Longrightarrow> \<not> py_isspace (hd s) \<Longrightarrow> lstrip s = s"
  by (cases s) (simp_all add: lstrip_def)

lemma rstrip_append_blank: "blank w \<Longrightarrow> rstrip (s @ w) = rstrip s"
proof -
  assume "blank w"
  then have "blank (rev w)" by (simp add: blank_def)
  then have "dropWhile py_isspace (rev w @ rev s) = dropWhile py_isspace (rev s)"
    using lstrip_blank_append [of "rev w" "rev s"] by (simp add: lstrip_def)
  then show ?thesis by (simp add: rstrip_def)
qed

lemma rstrip_id: "s \<noteq> [] \<Longrightarrow> \<not> py_isspace (last s) \<Longrightarrow> rstrip s = s"
proof -
  assume "s \<noteq> []" and "\<not> py_isspace (last s)"
  then have "rev s \<noteq> []" and "\<not> py_isspace (hd (rev s))" by (simp_all add: hd_rev)
  then have "dropWhile py_isspace (rev s) = rev s" using lstrip_id [of "rev s"] by (simp add: lstrip_def)
  then show ?thesis by (simp add: rstrip_def)
qed

lemma strip_core:
  assumes "blank w" "blank w'" "s \<noteq> []" "\<not> py_isspace (hd s)" "\<not> py_isspace (last s)"
  shows "strip (w @ s @ w') = s"
proof -
  have "lstrip (w @ s @ w') = s @ w'"
    using assms lstrip_blank_append [of w "s @ w'"] lstrip_id [of "s @ w'"] by simp
  moreover have "rstrip (s @ w') = s"
    using assms rstrip_append_blank [of w' s] rstrip_id [of s] by simp
  ultimately show ?thesis by (simp add: strip_def)
qed

lemma dropWhile_shorter: "xs \<noteq> [] \<Longrightarrow> P (hd xs) \<Longrightarrow> length (dropWhile P xs) < length xs"
  by (cases xs) (simp_all add: le_imp_less_Suc length_dropWhile_le)

lemma length_lstrip: "length (lstrip s) \<le> length s"
  by (simp add: lstrip_def length_dropWhile_le)

lemma length_rstrip: "length (rstrip s) \<le> length s"
  using length_dropWhile_le [of py_isspace "rev s"] by (simp add: rstrip_def)

lemma strip_fixed_ends:
  assumes "strip a = a" "a \<noteq> []"
  shows "\<not> py_isspace (hd a)" "\<not> py_isspace (last a)"
proof -
  have len: "length (rstrip (lstrip a)) = length a" using assms by (simp add: strip_def)
  show h: "\<not> py_isspace (hd a)"
  proof
    assume "py_isspace (hd a)"
    then have "length (lstrip a) < length a"
      using assms dropWhile_shorter [of a py_isspace] by (simp add: lstrip_def)
    then show False using len length_rstrip [of "lstrip a"] by simp
  qed
  then have l: "lstrip a = a" using assms lstrip_id by simp
  show "\<not> py_isspace (last a)"
  proof
    assume "py_isspace (last a)"
    then have "py_isspace (hd (rev a))" using assms by (simp add: hd_rev)
    then have "length (dropWhile py_isspace (rev a)) < length (rev a)"
      using assms dropWhile_shorter [of "rev a" py_isspace] by simp
    then have "length (rstrip a) < length a" by (simp add: rstrip_def)
    then show False using len l by simp
  qed
qed

subsection \<open>Characters that \<^verbatim>\<open>float\<close> refuses\<close>

lemma skip_sign_keeps: "x \<in> set s \<Longrightarrow> x \<noteq> CHR ''-'' \<Longrightarrow> x \<noteq> CHR ''+'' \<Longrightarrow> x \<in> set (skip_sign s)"
  by (cases s) (auto simp: skip_sign_def)

lemma all_digits_unreadable:
  "dropWhile is_digit r = [] \<Longrightarrow> unreadable x \<Longrightarrow> x \<notin> set r"
  by (auto simp: unreadable_def)

lemma digits_split_unreadable:
  assumes "x \<notin> set (dropWhile is_digit r)" "unreadable x"
  shows "x \<notin> set r"
proof
  assume "x \<in> set r"
  moreover have "set r = set (takeWhile is_digit r) \<union> set (dropWhile is_digit r)"
    by (metis set_append takeWhile_dropWhile_id)
  ultimately have "x \<in> set (takeWhile is_digit r)" using assms(1) by blast
  then have "is_digit x" by (rule set_takeWhileD [THEN conjunct2])
  then show False using assms(2) by (simp add: unreadable_def)
qed

lemma scan_exponent_Nil:
  assumes "scan_exponent r = []" "unreadable x"
  shows "x \<notin> set r"
proof (cases r)
  case Nil
  then show ?thesis by simp
next
  case (Cons c cs)
  with assms(1) have mark: "c = CHR ''e'' \<or> c = CHR ''E''"
    by (auto simp: scan_exponent_def split: if_splits)
  with assms(1) Cons have "dropWhile is_digit (skip_sign cs) = []"
    by (auto simp: scan_exponent_def Let_def split: if_splits)
  then have "x \<notin> set (skip_sign cs)" using assms(2) by (rule all_digits_unreadable)
  moreover have "x \<noteq> CHR ''-''" "x \<noteq> CHR ''+''" "x \<noteq> c"
    using assms(2) mark by (auto simp: unreadable_def)
  ultimately show ?thesis using Cons skip_sign_keeps [of x cs] by auto
qed

lemma scan_fraction_unreadable:
  assumes "scan_fraction r1 = (fp, r2)" "x \<notin> set r2" "unreadable x"
  shows "x \<notin> set r1"
proof (cases r1)
  case Nil
  then show ?thesis by simp
next
  case (Cons c cs)
  show ?thesis
  proof (cases "c = CHR ''.''")
    case True
    with assms(1) Cons have "r2 = dropWhile is_digit cs" by (simp add: scan_fraction_def)
    then have "x \<notin> set cs" using assms(2,3) digits_split_unreadable by blast
    moreover have "x \<noteq> c" using True assms(3) by (auto simp: unreadable_def)
    ultimately show ?thesis using Cons by simp
  next
    case False
    with assms(1) Cons have "r2 = r1" by (simp add: scan_fraction_def)
    then show ?thesis using assms(2) by simp
  qed
qed

lemma scan_decimal_Nil:
  assumes "scan_decimal s = Some []" "unreadable x"
  shows "x \<notin> set s"
proof -
  obtain fp r2 where fr: "scan_fraction (dropWhile is_digit (skip_sign s)) = (fp, r2)"
    by (cases "scan_fraction (dropWhile is_digit (skip_sign s))") blast
  with assms(1) have "scan_exponent r2 = []"
    by (auto simp: scan_decimal_def Let_def split: if_splits)
  then have "x \<notin> set r2" using assms(2) by (rule scan_exponent_Nil)
  then have "x \<notin> set (dropWhile is_digit (skip_sign s))"
    using fr assms(2) scan_fraction_unreadable by blast
  then have "x \<notin> set (skip_sign s)" using assms(2) digits_split_unreadable by blast
  moreover have "x \<noteq> CHR ''-''" "x \<noteq> CHR ''+''" using assms(2) by (auto simp: unreadable_def)
  ultimately show ?thesis using skip_sign_keeps [of x s] by blast
qed

lemma startswith_whole:
  "startswith s p \<Longrightarrow> length p = n \<Longrightarrow> drop n s = [] \<Longrightarrow> s = p"
  by (induction s p arbitrary: n rule: startswith.induct) auto

lemma startswith_drop:
  "startswith s p \<Longrightarrow> length p = n \<Longrightarrow> s = p @ drop n s"
  by (induction s p arbitrary: n rule: startswith.induct) auto

lemma match_whole_unreadable:
  assumes "map ascii_lower s = p" "set p \<subseteq> set ''infinityan''" "unreadable x"
  shows "x \<notin> set s"
proof
  assume "x \<in> set s"
  then have "ascii_lower x \<in> set (map ascii_lower s)" by simp
  then have "ascii_lower x \<in> set ''infinityan''" using assms(1,2) by blast
  then show False using assms(3) by (simp add: unreadable_def)
qed

lemma parse_inf_or_nan_Nil:
  assumes "parse_inf_or_nan s = Some []" "unreadable x"
  shows "x \<notin> set s"
proof -
  let ?t = "skip_sign s"
  let ?l = "map ascii_lower ?t"
  have len: "length ''inf'' = 3" "length ''nan'' = 3" "length ''inity'' = 5" by simp_all
  have "?l = ''inf'' \<or> ?l = ''infinity'' \<or> ?l = ''nan''"
  proof (cases "startswith ?l ''inf''")
    case inf: True
    show ?thesis
    proof (cases "startswith (map ascii_lower (drop 3 ?t)) ''inity''")
      case True
      with inf assms(1) have "drop 8 ?t = []"
        by (simp add: parse_inf_or_nan_def case_insensitive_match_def Let_def)
      then have "drop 5 (map ascii_lower (drop 3 ?t)) = []" by (simp add: drop_map)
      then have "map ascii_lower (drop 3 ?t) = ''inity''"
        using True len(3) startswith_whole by blast
      then have "drop 3 ?l = ''inity''" by (simp add: drop_map)
      moreover have "?l = ''inf'' @ drop 3 ?l" using inf len(1) by (rule startswith_drop)
      ultimately have "?l = ''inf'' @ ''inity''" by metis
      then show ?thesis by simp
    next
      case False
      with inf assms(1) have "drop 3 ?t = []"
        by (simp add: parse_inf_or_nan_def case_insensitive_match_def Let_def)
      then have "drop 3 ?l = []" by (simp add: drop_map)
      then show ?thesis using inf len(1) startswith_whole by blast
    qed
  next
    case False
    with assms(1) have nan: "startswith ?l ''nan''" and "drop 3 ?t = []"
      by (auto simp: parse_inf_or_nan_def case_insensitive_match_def Let_def split: if_splits)
    then have "drop 3 ?l = []" by (simp add: drop_map)
    then show ?thesis using nan len(2) startswith_whole by blast
  qed
  then obtain p where "?l = p" "set p \<subseteq> set ''infinityan''" by auto
  then have "x \<notin> set ?t" using assms(2) match_whole_unreadable by blast
  moreover have "x \<noteq> CHR ''-''" "x \<noteq> CHR ''+''" using assms(2) by (auto simp: unreadable_def)
  ultimately show ?thesis using skip_sign_keeps [of x s] by blast
qed

lemma string_to_double_Nil:
  "string_to_double s = Some [] \<Longrightarrow> unreadable x \<Longrightarrow> x \<notin> set s"
  using scan_decimal_Nil parse_inf_or_nan_Nil
  by (auto simp: string_to_double_def split: option.splits)

lemma dropWhile_keeps: "x \<in> set xs \<Longrightarrow> \<not> P x \<Longrightarrow> x \<in> set (dropWhile P xs)"
  by (induction xs) auto

lemma float_inner_unreadable:
  assumes "float_inner b" "unreadable x"
  shows "x \<notin> set b"
proof
  assume "x \<in> set b"
  moreover have ns: "\<not> c_isspace x" using assms(2) by (simp add: unreadable_def)
  ultimately have "x \<in> set (dropWhile c_isspace b)" by (rule dropWhile_keeps)
  then have "x \<in> set (rev (dropWhile c_isspace b))" by simp
  then have "x \<in> set (dropWhile c_isspace (rev (dropWhile c_isspace b)))"
    using ns by (rule dropWhile_keeps)
  then have "x \<in> set (rev (dropWhile c_isspace (rev (dropWhile c_isspace b))))" by simp
  moreover have "string_to_double (rev (dropWhile c_isspace (rev (dropWhile c_isspace b)))) = Some []"
    using assms(1) by (simp add: float_inner_def Let_def)
  ultimately show False using assms(2) string_to_double_Nil by blast
qed

lemma drop_underscores_keeps:
  "drop_underscores prev a = Some b \<Longrightarrow> x \<in> set a \<Longrightarrow> x \<noteq> CHR ''_'' \<Longrightarrow> x \<in> set b"
proof (induction a arbitrary: prev b)
  case Nil
  then show ?case by simp
next
  case (Cons c cs)
  show ?case
  proof (cases "c = CHR ''_''")
    case True
    with Cons.prems(1) have "drop_underscores (Some c) cs = Some b"
      by (auto split: option.splits if_splits)
    moreover have "x \<in> set cs" using Cons.prems(2,3) True by auto
    ultimately show ?thesis using Cons.IH Cons.prems(3) by blast
  next
    case False
    with Cons.prems(1) obtain b' where b': "drop_underscores (Some c) cs = Some b'" "b = c # b'"
      by (auto split: if_splits)
    show ?thesis
    proof (cases "x = c")
      case True
      then show ?thesis using b'(2) by simp
    next
      case False
      then have "x \<in> set cs" using Cons.prems(2) by simp
      then have "x \<in> set b'" using Cons.IH b'(1) Cons.prems(3) by blast
      then show ?thesis using b'(2) by simp
    qed
  qed
qed

lemma accepted_unreadable:
  assumes "if CHR ''_'' \<in> set a
           then (case drop_underscores None a of None \<Rightarrow> False | Some b \<Rightarrow> float_inner b)
           else float_inner a"
    and "unreadable x"
  shows "x \<notin> set a"
proof (cases "CHR ''_'' \<in> set a")
  case True
  with assms(1) obtain b where b: "drop_underscores None a = Some b" "float_inner b"
    by (auto split: option.splits)
  have "x \<noteq> CHR ''_''" using assms(2) by (simp add: unreadable_def)
  then show ?thesis using b drop_underscores_keeps float_inner_unreadable assms(2) by blast
next
  case False
  then show ?thesis using assms float_inner_unreadable by simp
qed

lemma unreadable_comma: "unreadable CHR '',''"
  by (simp add: unreadable_def is_digit_def c_isspace_def ascii_lower_def)

lemma unreadable_question: "unreadable CHR ''?''"
  by (simp add: unreadable_def is_digit_def c_isspace_def ascii_lower_def)

lemma to_ascii_comma:
  "CHR '','' \<in> set s \<Longrightarrow> CHR '','' \<in> set (to_ascii s) \<or> CHR ''?'' \<in> set (to_ascii s)"
  by (induction s) auto

lemma float_ok_no_comma:
  assumes "float_ok s"
  shows "CHR '','' \<notin> set s"
proof
  assume c: "CHR '','' \<in> set s"
  have acc: "if CHR ''_'' \<in> set (transform s)
           then (case drop_underscores None (transform s) of None \<Rightarrow> False | Some b \<Rightarrow> float_inner b)
           else float_inner (transform s)"
    using assms by (simp add: float_ok_def Let_def)
  have "CHR '','' \<in> set (transform s) \<or> CHR ''?'' \<in> set (transform s)"
    using c to_ascii_comma by (simp add: transform_def)
  then show False
    using accepted_unreadable [OF acc unreadable_comma]
      accepted_unreadable [OF acc unreadable_question] by blast
qed

lemma float_ok_nonempty: "float_ok s \<Longrightarrow> s \<noteq> []"
  by (auto simp: float_ok_def transform_def float_inner_def)

lemma realnumber_ends:
  assumes "realnumber a"
  shows "a \<noteq> []" "\<not> py_isspace (hd a)" "\<not> py_isspace (last a)" "CHR '','' \<notin> set a"
  using assms float_ok_nonempty float_ok_no_comma strip_fixed_ends
  by (auto simp: realnumber_def)

subsection \<open>The parser on a line of the expected shape\<close>

lemma blank_no_comma: "blank w \<Longrightarrow> CHR '','' \<notin> set w"
  by (induction w) (auto simp: py_isspace_def)

lemma strip_field:
  assumes "blank w" "blank w2" "blank w3" "v \<noteq> []" "\<not> py_isspace (last v)"
    and "tag \<noteq> []" "\<not> py_isspace (hd tag)"
  shows "strip (w @ tag @ w2 @ v @ w3) = tag @ w2 @ v"
proof -
  have "strip (w @ (tag @ w2 @ v) @ w3) = tag @ w2 @ v"
    using assms by (intro strip_core) simp_all
  then show ?thesis by simp
qed

lemma strip_value:
  assumes "blank w2" "v \<noteq> []" "\<not> py_isspace (hd v)" "\<not> py_isspace (last v)"
  shows "strip (w2 @ v) = v"
  using strip_core [of w2 "[]" v] assms by simp

lemma after_colon_LUX:
  assumes "blank w2" "v \<noteq> []" "\<not> py_isspace (hd v)" "\<not> py_isspace (last v)"
  shows "after_colon (''LUX:'' @ w2 @ v) = Inr v"
proof -
  have "split1 CHR '':'' (''LUX'' @ CHR '':'' # (w2 @ v)) = [''LUX'', w2 @ v]"
    by (rule split1_first) simp
  then show ?thesis using strip_value [OF assms] by (simp add: after_colon_def)
qed

lemma after_colon_SQM:
  assumes "blank w2" "v \<noteq> []" "\<not> py_isspace (hd v)" "\<not> py_isspace (last v)"
  shows "after_colon (''SQM:'' @ w2 @ v) = Inr v"
proof -
  have "split1 CHR '':'' (''SQM'' @ CHR '':'' # (w2 @ v)) = [''SQM'', w2 @ v]"
    by (rule split1_first) simp
  then show ?thesis using strip_value [OF assms] by (simp add: after_colon_def)
qed

lemma parse_steps:
  assumes "contains ''LUX:'' line" "contains ''SQM:'' line"
    and "split1 CHR '','' line = [p, q]"
    and "startswith (strip p) ''LUX:''" "startswith (strip q) ''SQM:''"
    and "after_colon (strip p) = Inr a" "after_colon (strip q) = Inr b"
    and "float_ok a" "float_ok b \<or> upper b = codepoints ''NAN''"
  shows "parse_lux_sqm line = Inr (a, b)"
  using assms by (auto simp: parse_lux_sqm_def check_float_def Let_def)

lemma parse_template:
  assumes w: "blank w1" "blank w2" "blank w3" "blank w4" "blank w5" "blank w6"
    and a: "realnumber a"
    and b: "b \<noteq> []" "\<not> py_isspace (hd b)" "\<not> py_isspace (last b)"
           "float_ok b \<or> upper b = codepoints ''NAN''"
  shows "parse_lux_sqm (w1 @ ''LUX:'' @ w2 @ a @ w3 @ '','' @ w4 @ ''SQM:'' @ w5 @ b @ w6)
         = Inr (a, b)"
proof -
  let ?p = "w1 @ ''LUX:'' @ w2 @ a @ w3"
  let ?q = "w4 @ ''SQM:'' @ w5 @ b @ w6"
  let ?line = "w1 @ ''LUX:'' @ w2 @ a @ w3 @ '','' @ w4 @ ''SQM:'' @ w5 @ b @ w6"
  note ae = realnumber_ends [OF a]
  have fa: "float_ok a" using a by (simp add: realnumber_def)
  have m1: "contains ''LUX:'' ?line" by (rule contains_append)
  have "contains ''SQM:'' ((?p @ '','' @ w4) @ ''SQM:'' @ (w5 @ b @ w6))" by (rule contains_append)
  then have m2: "contains ''SQM:'' ?line" by simp
  have "CHR '','' \<notin> set ?p" using w ae(4) blank_no_comma by auto
  then have "split1 CHR '','' (?p @ CHR '','' # ?q) = [?p, ?q]" by (rule split1_first)
  then have parts: "split1 CHR '','' ?line = [?p, ?q]" by simp
  have sp: "strip ?p = ''LUX:'' @ w2 @ a"
    using w ae by (intro strip_field) (simp_all add: py_isspace_def)
  have sq: "strip ?q = ''SQM:'' @ w5 @ b"
    using w b by (intro strip_field) (simp_all add: py_isspace_def)
  have pl: "startswith (strip ?p) ''LUX:''" unfolding sp by (rule startswith_append)
  have ps: "startswith (strip ?q) ''SQM:''" unfolding sq by (rule startswith_append)
  have cl: "after_colon (strip ?p) = Inr a" unfolding sp using w ae by (intro after_colon_LUX)
  have cs: "after_colon (strip ?q) = Inr b" unfolding sq using w b by (intro after_colon_SQM)
  show ?thesis using m1 m2 parts pl ps cl cs fa b(4) by (rule parse_steps)
qed

subsection \<open>Texts with a given upper-case form\<close>

lemma char_of_code: "of_char c = (n::nat) \<Longrightarrow> of_char d = n \<Longrightarrow> c = d"
  by (metis of_char_eq_iff)

lemma upper_cp_head:
  "upper_cp c @ r = n # t \<Longrightarrow> n \<noteq> 83 \<Longrightarrow> upper_cp c = [n] \<and> r = t"
  by (auto simp: upper_cp_def Let_def split: if_splits)

lemma upper_cp_letter:
  "upper_cp c = [n] \<Longrightarrow> 65 \<le> n \<Longrightarrow> n \<le> 90 \<Longrightarrow> of_char c = n \<or> of_char c = n + 32"
  by (auto simp: upper_cp_def Let_def split: if_splits)

lemma upper_cp_other:
  "upper_cp c = [n] \<Longrightarrow> n < 65 \<Longrightarrow> of_char c = n"
  by (auto simp: upper_cp_def Let_def split: if_splits)

lemma upper_Nil: "upper s = [] \<Longrightarrow> s = []"
  by (cases s) (auto simp: upper_def upper_cp_def Let_def split: if_splits)

lemma upper_Cons: "upper (c # s) = upper_cp c @ upper s"
  by (simp add: upper_def)

lemma upper_step:
  assumes "upper s = n # t" "n \<noteq> 83"
  obtains c s' where "s = c # s'" "upper_cp c = [n]" "upper s' = t"
proof (cases s)
  case Nil
  then show ?thesis using assms(1) by (simp add: upper_def)
next
  case (Cons c s')
  then have "upper_cp c @ upper s' = n # t" using assms(1) by (simp add: upper_Cons)
  then have "upper_cp c = [n] \<and> upper s' = t" using assms(2) by (rule upper_cp_head)
  then show ?thesis using that Cons by blast
qed

lemma code_N: "upper_cp c = [78] \<Longrightarrow> c = CHR ''N'' \<or> c = CHR ''n''"
  using upper_cp_letter [of c 78] char_of_code [of c 78 "CHR ''N''"] char_of_code [of c 110 "CHR ''n''"]
  by auto

lemma code_A: "upper_cp c = [65] \<Longrightarrow> c = CHR ''A'' \<or> c = CHR ''a''"
  using upper_cp_letter [of c 65] char_of_code [of c 65 "CHR ''A''"] char_of_code [of c 97 "CHR ''a''"]
  by auto

lemma nan_text_cases:
  assumes "nan_text s"
  shows "s \<in> set [''NAN'', ''NAn'', ''NaN'', ''Nan'', ''nAN'', ''nAn'', ''naN'', ''nan'']"
proof -
  have u: "upper s = [78, 65, 78]" using assms by (simp add: nan_text_def codepoints_def)
  from u obtain c1 s1 where 1: "s = c1 # s1" "upper_cp c1 = [78]" "upper s1 = [65, 78]"
    by (rule upper_step) simp
  from 1(3) obtain c2 s2 where 2: "s1 = c2 # s2" "upper_cp c2 = [65]" "upper s2 = [78]"
    by (rule upper_step) simp
  from 2(3) obtain c3 s3 where 3: "s2 = c3 # s3" "upper_cp c3 = [78]" "upper s3 = []"
    by (rule upper_step) simp
  have "s3 = []" using 3(3) by (rule upper_Nil)
  then have "s = [c1, c2, c3]" using 1(1) 2(1) 3(1) by simp
  then show ?thesis using code_N [OF 1(2)] code_A [OF 2(2)] code_N [OF 3(2)] by auto
qed

lemma nan_text_ends:
  assumes "nan_text s"
  shows "s \<noteq> []" "\<not> py_isspace (hd s)" "\<not> py_isspace (last s)"
  using nan_text_cases [OF assms] by (auto simp: py_isspace_def)

subsection \<open>Evaluation and the shape of a successful parse\<close>

lemmas eval_defs = parse_lux_sqm_def split1_def strip_def lstrip_def rstrip_def after_colon_def
  check_float_def upper_def upper_cp_def codepoints_def
  float_ok_def transform_def float_inner_def string_to_double_def
  scan_decimal_def scan_fraction_def scan_exponent_def skip_sign_def parse_inf_or_nan_def
  case_insensitive_match_def ascii_lower_def is_digit_def c_isspace_def MAX_DIGITS_def
  py_isspace_def Let_def realnumber_def nan_text_def blank_def lux_candidate_def

lemma parse_success:
  assumes "parse_lux_sqm line = Inr (l, s)"
  shows "\<exists>p q. split1 CHR '','' line = [p, q]
           \<and> startswith (strip p) ''LUX:'' \<and> startswith (strip q) ''SQM:''
           \<and> after_colon (strip p) = Inr l \<and> after_colon (strip q) = Inr s
           \<and> float_ok l \<and> (float_ok s \<or> nan_text s)"
proof (cases "CHR '','' \<in> set line")
  case False
  then have "split1 CHR '','' line = [line]" by (rule split1_no_sep)
  then show ?thesis using assms by (simp add: parse_lux_sqm_def Let_def split: if_splits)
next
  case True
  then obtain p q where pq: "split1 CHR '','' line = [p, q]" by (simp add: split1_def)
  then show ?thesis using assms
    by (auto simp: parse_lux_sqm_def Let_def check_float_def nan_text_def
        split: if_splits sum.splits)
qed

subsection \<open>Markers in another case\<close>

lemma upper_cp_head2:
  "upper_cp c @ r = n # k # t \<Longrightarrow> k \<noteq> 83 \<Longrightarrow> upper_cp c = [n] \<and> r = k # t"
  by (auto simp: upper_cp_def Let_def split: if_splits)

lemma upper_step2:
  assumes "upper s = n # k # t" "k \<noteq> 83"
  obtains c s' where "s = c # s'" "upper_cp c = [n]" "upper s' = k # t"
proof (cases s)
  case Nil
  then show ?thesis using assms(1) by (simp add: upper_def)
next
  case (Cons c s')
  then have "upper_cp c @ upper s' = n # k # t" using assms(1) by (simp add: upper_Cons)
  then have "upper_cp c = [n] \<and> upper s' = k # t" using assms(2) by (rule upper_cp_head2)
  then show ?thesis using that Cons by blast
qed

lemma code_letter:
  assumes "upper_cp c = [n]" "65 \<le> n" "n \<le> 90" "of_char u = n" "of_char l = n + 32"
  shows "c = u \<or> c = l"
  using upper_cp_letter [OF assms(1-3)] assms(4,5) char_of_code by blast

lemma code_colon: "upper_cp c = [58] \<Longrightarrow> c = CHR '':''"
  using upper_cp_other [of c 58] char_of_code [of c 58 "CHR '':''"] by simp

lemma marker_LUX:
  assumes "upper m = codepoints ''LUX:''"
  obtains c1 c2 c3 where "m = [c1, c2, c3, CHR '':'']"
    "c1 = CHR ''L'' \<or> c1 = CHR ''l''" "c2 = CHR ''U'' \<or> c2 = CHR ''u''"
    "c3 = CHR ''X'' \<or> c3 = CHR ''x''"
proof -
  have u: "upper m = [76, 85, 88, 58]" using assms by (simp add: codepoints_def)
  from u obtain c1 s1 where 1: "m = c1 # s1" "upper_cp c1 = [76]" "upper s1 = [85, 88, 58]"
    by (rule upper_step) simp
  from 1(3) obtain c2 s2 where 2: "s1 = c2 # s2" "upper_cp c2 = [85]" "upper s2 = [88, 58]"
    by (rule upper_step) simp
  from 2(3) obtain c3 s3 where 3: "s2 = c3 # s3" "upper_cp c3 = [88]" "upper s3 = [58]"
    by (rule upper_step) simp
  from 3(3) obtain c4 s4 where 4: "s3 = c4 # s4" "upper_cp c4 = [58]" "upper s4 = []"
    by (rule upper_step) simp
  have "s4 = []" using 4(3) by (rule upper_Nil)
  then have "m = [c1, c2, c3, CHR '':'']" using 1(1) 2(1) 3(1) 4(1) code_colon [OF 4(2)] by simp
  moreover have "c1 = CHR ''L'' \<or> c1 = CHR ''l''" using 1(2) by (rule code_letter) simp_all
  moreover have "c2 = CHR ''U'' \<or> c2 = CHR ''u''" using 2(2) by (rule code_letter) simp_all
  moreover have "c3 = CHR ''X'' \<or> c3 = CHR ''x''" using 3(2) by (rule code_letter) simp_all
  ultimately show ?thesis using that by blast
qed

lemma marker_SQM:
  assumes "upper m = codepoints ''SQM:''"
  obtains c1 c2 c3 where "m = [c1, c2, c3, CHR '':'']"
    "c1 = CHR ''S'' \<or> c1 = CHR ''s''" "c2 = CHR ''Q'' \<or> c2 = CHR ''q''"
    "c3 = CHR ''M'' \<or> c3 = CHR ''m''"
proof -
  have u: "upper m = [83, 81, 77, 58]" using assms by (simp add: codepoints_def)
  from u obtain c1 s1 where 1: "m = c1 # s1" "upper_cp c1 = [83]" "upper s1 = [81, 77, 58]"
    by (rule upper_step2) simp
  from 1(3) obtain c2 s2 where 2: "s1 = c2 # s2" "upper_cp c2 = [81]" "upper s2 = [77, 58]"
    by (rule upper_step) simp
  from 2(3) obtain c3 s3 where 3: "s2 = c3 # s3" "upper_cp c3 = [77]" "upper s3 = [58]"
    by (rule upper_step) simp
  from 3(3) obtain c4 s4 where 4: "s3 = c4 # s4" "upper_cp c4 = [58]" "upper s4 = []"
    by (rule upper_step) simp
  have "s4 = []" using 4(3) by (rule upper_Nil)
  then have "m = [c1, c2, c3, CHR '':'']" using 1(1) 2(1) 3(1) 4(1) code_colon [OF 4(2)] by simp
  moreover have "c1 = CHR ''S'' \<or> c1 = CHR ''s''" using 1(2) by (rule code_letter) simp_all
  moreover have "c2 = CHR ''Q'' \<or> c2 = CHR ''q''" using 2(2) by (rule code_letter) simp_all
  moreover have "c3 = CHR ''M'' \<or> c3 = CHR ''m''" using 3(2) by (rule code_letter) simp_all
  ultimately show ?thesis using that by blast
qed

lemma rstrip_keeps_head:
  assumes "m \<noteq> []" "\<not> py_isspace (last m)"
  shows "\<exists>r. rstrip (m @ a) = m @ r"
proof (cases "\<forall>x \<in> set (rev a). py_isspace x")
  case True
  have "dropWhile py_isspace (rev m) = rev m"
    using assms by (cases "rev m") (auto simp: last_rev [symmetric] hd_rev)
  then have "dropWhile py_isspace (rev a @ rev m) = rev m" using True by (simp add: dropWhile_append)
  then have "rstrip (m @ a) = m @ []" by (simp add: rstrip_def)
  then show ?thesis by blast
next
  case False
  then have "dropWhile py_isspace (rev a @ rev m) = dropWhile py_isspace (rev a) @ rev m"
    by (auto simp: dropWhile_append)
  then have "rstrip (m @ a) = m @ rev (dropWhile py_isspace (rev a))" by (simp add: rstrip_def)
  then show ?thesis by blast
qed

lemma strip_keeps_marker:
  assumes "blank w" "m \<noteq> []" "\<not> py_isspace (hd m)" "\<not> py_isspace (last m)"
  shows "\<exists>r. strip (w @ m @ a) = m @ r"
proof -
  have "lstrip (w @ m @ a) = m @ a"
    using assms lstrip_blank_append [of w "m @ a"] lstrip_id [of "m @ a"] by simp
  then show ?thesis using rstrip_keeps_head [OF assms(2,4)] by (simp add: strip_def)
qed

lemma startswith_same_length:
  assumes "startswith (m @ r) p" "length m = length p"
  shows "m = p"
proof -
  obtain v where "m @ r = p @ v" using assms(1) startswith_iff by blast
  then show ?thesis using assms(2) by simp
qed

lemma prefix_check_fails:
  assumes "split1 CHR '','' line = [p, q]"
    and "\<not> startswith (strip p) ''LUX:'' \<or> \<not> startswith (strip q) ''SQM:''"
  shows "parse_lux_sqm line = Inl (NoMarkers line) \<or> parse_lux_sqm line = Inl (BadPrefix line)"
  using assms by (auto simp: parse_lux_sqm_def Let_def)

subsection \<open>A request without transport fault\<close>

lemma perform_no_fault: "\<forall>c \<in> set cs. f c = None \<Longrightarrow> perform f cs = (cs, None)"
  by (induction cs) auto

section \<open>Properties of the line parser\<close>

text \<open>
  C1. A line \<open>LUX:a,SQM:b\<close> in which \<open>a\<close> and \<open>b\<close> are numeric texts is parsed
  successfully, and the result is the pair of the two texts themselves, unchanged and
  unconverted.
\<close>

theorem parse_valid_line:
  assumes "realnumber a" "realnumber b"
  shows "parse_lux_sqm (''LUX:'' @ a @ '','' @ ''SQM:'' @ b) = Inr (a, b)"
proof -
  note be = realnumber_ends [OF assms(2)]
  have "float_ok b \<or> upper b = codepoints ''NAN''" using assms(2) by (simp add: realnumber_def)
  then have "parse_lux_sqm ([] @ ''LUX:'' @ [] @ a @ [] @ '','' @ [] @ ''SQM:'' @ [] @ b @ [])
      = Inr (a, b)"
    using assms(1) be by (intro parse_template) simp_all
  then show ?thesis by simp
qed

text \<open>The line \<open>LUX:123.4,SQM:5.6\<close> gives \<open>123.4\<close> and \<open>5.6\<close>.\<close>

theorem parse_valid_line_witness:
  "realnumber ''123.4'' \<and> realnumber ''5.6''
   \<and> parse_lux_sqm ''LUX:123.4,SQM:5.6'' = Inr (''123.4'', ''5.6'')"
proof -
  have a: "realnumber ''123.4''" by (simp add: eval_defs)
  have b: "realnumber ''5.6''" by (simp add: eval_defs)
  show ?thesis using a b parse_valid_line [OF a b] by simp
qed

text \<open>
  C2. A lux candidate \<open>NaN\<close> is not refused: \<^verbatim>\<open>float\<close> reads \<open>NaN\<close>, so the line
  \<open>LUX:NaN,SQM:1.0\<close> is parsed successfully and the candidate is returned. The lux
  value is thus not held to a stricter test than \<^verbatim>\<open>float\<close> itself.
\<close>

theorem lux_nan_accepted:
  "lux_candidate ''LUX:NaN,SQM:1.0'' = Some ''NaN'' \<and> nan_text ''NaN''
   \<and> parse_lux_sqm ''LUX:NaN,SQM:1.0'' = Inr (''NaN'', ''1.0'')"
  by (simp add: eval_defs)

text \<open>
  C2, amended. Whenever the lux candidate of a line is a text that \<^verbatim>\<open>float\<close> refuses,
  the parser fails.
\<close>

theorem lux_not_float_fails:
  assumes "lux_candidate line = Some c" "\<not> float_ok c"
  shows "\<exists>e. parse_lux_sqm line = Inl e"
proof (cases "parse_lux_sqm line")
  case (Inl e)
  then show ?thesis by blast
next
  case (Inr r)
  then obtain l s where "parse_lux_sqm line = Inr (l, s)" by (cases r) simp
  then obtain p q where "split1 CHR '','' line = [p, q]" "after_colon (strip p) = Inr l" "float_ok l"
    using parse_success by blast
  then have "c = l" using assms(1)
    by (auto simp: lux_candidate_def after_colon_def split: list.splits)
  then show ?thesis using assms(2) \<open>float_ok l\<close> by simp
qed

text \<open>
  The line \<open>LUX:abc,SQM:1.0\<close> fails, with the error of \<^verbatim>\<open>float\<close> on \<open>abc\<close>.
\<close>

theorem lux_not_float_fails_witness:
  "lux_candidate ''LUX:abc,SQM:1.0'' = Some ''abc'' \<and> \<not> float_ok ''abc''
   \<and> parse_lux_sqm ''LUX:abc,SQM:1.0'' = Inl (NotAFloat ''abc'')"
proof -
  have c: "lux_candidate ''LUX:abc,SQM:1.0'' = Some ''abc''" by (simp add: eval_defs)
  have f: "\<not> float_ok ''abc''" by (simp add: eval_defs)
  have "parse_lux_sqm ''LUX:abc,SQM:1.0'' = Inl (NotAFloat ''abc'')" by (simp add: eval_defs)
  then show ?thesis using c f lux_not_float_fails [OF c f] by simp
qed

text \<open>
  C3. On a well-formed line (whitespace allowed around the fields and the values) whose
  sqm candidate equals \<open>NAN\<close> when upper-cased, the parser succeeds and returns the
  candidate as it was written.
\<close>

theorem sqm_nan_accepted:
  assumes "blank w1" "blank w2" "blank w3" "blank w4" "blank w5" "blank w6"
    and "realnumber a" "nan_text s"
  shows "parse_lux_sqm (w1 @ ''LUX:'' @ w2 @ a @ w3 @ '','' @ w4 @ ''SQM:'' @ w5 @ s @ w6)
         = Inr (a, s)"
proof -
  have "float_ok s \<or> upper s = codepoints ''NAN''" using assms(8) by (simp add: nan_text_def)
  then show ?thesis using assms(1-7) nan_text_ends [OF assms(8)] by (intro parse_template)
qed

text \<open>
  The lines \<open>LUX:0.01,SQM:NaN\<close>, \<open>LUX:0.01,SQM:nan\<close> and \<open>LUX:0.01,SQM:NAN\<close>.
\<close>

theorem sqm_nan_accepted_witness:
  "blank [] \<and> realnumber ''0.01'' \<and> nan_text ''NaN'' \<and> nan_text ''nan'' \<and> nan_text ''NAN''
   \<and> parse_lux_sqm ''LUX:0.01,SQM:NaN'' = Inr (''0.01'', ''NaN'')
   \<and> parse_lux_sqm ''LUX:0.01,SQM:nan'' = Inr (''0.01'', ''nan'')
   \<and> parse_lux_sqm ''LUX:0.01,SQM:NAN'' = Inr (''0.01'', ''NAN'')"
proof -
  have w: "blank []" by simp
  have a: "realnumber ''0.01''" by (simp add: eval_defs)
  have n1: "nan_text ''NaN''" and n2: "nan_text ''nan''" and n3: "nan_text ''NAN''"
    by (simp_all add: nan_text_def upper_def upper_cp_def codepoints_def)
  show ?thesis
    using a n1 n2 n3 sqm_nan_accepted [OF w w w w w w a n1]
      sqm_nan_accepted [OF w w w w w w a n2] sqm_nan_accepted [OF w w w w w w a n3]
    by simp
qed

text \<open>
  C4. The order of the fields is fixed: when the trimmed first part does not start with
  \<open>LUX:\<close>, or the trimmed second part does not start with \<open>SQM:\<close>, the parser fails
  (for want of a marker in the line, or at the prefix check).
\<close>

theorem field_order_fixed:
  assumes "split1 CHR '','' line = [p, q]"
    and "\<not> startswith (strip p) ''LUX:'' \<or> \<not> startswith (strip q) ''SQM:''"
  shows "parse_lux_sqm line = Inl (NoMarkers line) \<or> parse_lux_sqm line = Inl (BadPrefix line)"
  using assms by (auto simp: parse_lux_sqm_def Let_def)

text \<open>
  The line \<open>SQM:5.6,LUX:123.4\<close> holds both markers and fails at the prefix check.
\<close>

theorem field_order_fixed_witness:
  "split1 CHR '','' ''SQM:5.6,LUX:123.4'' = [''SQM:5.6'', ''LUX:123.4'']
   \<and> \<not> startswith (strip ''SQM:5.6'') ''LUX:''
   \<and> contains ''LUX:'' ''SQM:5.6,LUX:123.4'' \<and> contains ''SQM:'' ''SQM:5.6,LUX:123.4''
   \<and> parse_lux_sqm ''SQM:5.6,LUX:123.4'' = Inl (BadPrefix ''SQM:5.6,LUX:123.4'')"
proof -
  have s: "split1 CHR '','' ''SQM:5.6,LUX:123.4'' = [''SQM:5.6'', ''LUX:123.4'']"
    by (simp add: split1_def)
  have n: "\<not> startswith (strip ''SQM:5.6'') ''LUX:''"
    by (simp add: strip_def lstrip_def rstrip_def py_isspace_def)
  have m: "contains ''LUX:'' ''SQM:5.6,LUX:123.4''" "contains ''SQM:'' ''SQM:5.6,LUX:123.4''"
    by simp_all
  have "parse_lux_sqm ''SQM:5.6,LUX:123.4'' \<noteq> Inl (NoMarkers ''SQM:5.6,LUX:123.4'')"
    by (simp add: eval_defs)
  then show ?thesis using s n m field_order_fixed [OF s disjI1 [OF n]] by simp
qed

text \<open>
  C5. A line that holds both markers and no comma is not split: the only part is the line
  itself, and the parser fails with the error for a wrong number of fields, which reports
  one field.
\<close>

theorem no_comma_wrong_count:
  assumes "contains ''LUX:'' line" "contains ''SQM:'' line" "CHR '','' \<notin> set line"
  shows "split1 CHR '','' line = [line]
         \<and> parse_lux_sqm line = Inl (WrongFieldCount 1 line)"
  using assms by (simp add: parse_lux_sqm_def split1_def)

text \<open>
  The line \<open>LUX:1.0;SQM:1.0\<close>.
\<close>

theorem no_comma_wrong_count_witness:
  "contains ''LUX:'' ''LUX:1.0;SQM:1.0'' \<and> contains ''SQM:'' ''LUX:1.0;SQM:1.0''
   \<and> CHR '','' \<notin> set ''LUX:1.0;SQM:1.0''
   \<and> parse_lux_sqm ''LUX:1.0;SQM:1.0'' = Inl (WrongFieldCount 1 ''LUX:1.0;SQM:1.0'')"
proof -
  have a: "contains ''LUX:'' ''LUX:1.0;SQM:1.0''" by simp
  have b: "contains ''SQM:'' ''LUX:1.0;SQM:1.0''" by simp
  have c: "CHR '','' \<notin> set ''LUX:1.0;SQM:1.0''" by simp
  show ?thesis using a b c no_comma_wrong_count [OF a b c] by simp
qed

text \<open>
  C6. Whitespace before and after each field, and before and after each value, is
  tolerated: the parser succeeds and returns the two numeric texts without it.
\<close>

theorem whitespace_tolerated:
  assumes "blank w1" "blank w2" "blank w3" "blank w4" "blank w5" "blank w6"
    and "realnumber a" "realnumber b"
  shows "parse_lux_sqm (w1 @ ''LUX:'' @ w2 @ a @ w3 @ '','' @ w4 @ ''SQM:'' @ w5 @ b @ w6)
         = Inr (a, b)"
proof -
  have "float_ok b \<or> upper b = codepoints ''NAN''" using assms(8) by (simp add: realnumber_def)
  then show ?thesis using assms(1-7) realnumber_ends(1-3) [OF assms(8)] by (intro parse_template)
qed

text \<open>
  The line \<open>LUX: 1.0 , SQM: 2.0\<close>.
\<close>

theorem whitespace_tolerated_witness:
  "blank [] \<and> blank '' '' \<and> realnumber ''1.0'' \<and> realnumber ''2.0''
   \<and> parse_lux_sqm ''LUX: 1.0 , SQM: 2.0'' = Inr (''1.0'', ''2.0'')"
proof -
  have e: "blank []" by simp
  have w: "blank '' ''" by (simp add: py_isspace_def)
  have a: "realnumber ''1.0''" by (simp add: eval_defs)
  have b: "realnumber ''2.0''" by (simp add: eval_defs)
  show ?thesis using e w a b whitespace_tolerated [OF e w w w w e a b] by simp
qed

text \<open>
  C7. A line that lacks the substring \<open>LUX:\<close> or the substring \<open>SQM:\<close> fails with
  the error for missing markers.
\<close>

theorem missing_marker_fails:
  assumes "\<not> contains ''LUX:'' line \<or> \<not> contains ''SQM:'' line"
  shows "parse_lux_sqm line = Inl (NoMarkers line)"
  using assms by (auto simp: parse_lux_sqm_def)

text \<open>
  The empty line.
\<close>

theorem missing_marker_fails_witness:
  "\<not> contains ''LUX:'' [] \<and> parse_lux_sqm [] = Inl (NoMarkers [])"
proof -
  have n: "\<not> contains ''LUX:'' []" by simp
  show ?thesis using n missing_marker_fails [OF disjI1 [OF n]] by simp
qed

text \<open>
  C10. The markers are compared with their case: a line built like a valid one, but
  with a marker in another mixture of upper and lower case, fails, either for want of a
  marker or at the prefix check.
\<close>

theorem markers_case_sensitive:
  assumes "blank w1" "blank w4"
    and "upper m1 = codepoints ''LUX:''" "upper m2 = codepoints ''SQM:''"
    and "m1 \<noteq> ''LUX:'' \<or> m2 \<noteq> ''SQM:''"
    and "CHR '','' \<notin> set a"
  shows "parse_lux_sqm (w1 @ m1 @ a @ '','' @ w4 @ m2 @ b)
           = Inl (NoMarkers (w1 @ m1 @ a @ '','' @ w4 @ m2 @ b))
       \<or> parse_lux_sqm (w1 @ m1 @ a @ '','' @ w4 @ m2 @ b)
           = Inl (BadPrefix (w1 @ m1 @ a @ '','' @ w4 @ m2 @ b))"
proof -
  let ?p = "w1 @ m1 @ a"
  let ?q = "w4 @ m2 @ b"
  from assms(3) obtain c1 c2 c3 where m1: "m1 = [c1, c2, c3, CHR '':'']"
    "c1 = CHR ''L'' \<or> c1 = CHR ''l''" "c2 = CHR ''U'' \<or> c2 = CHR ''u''"
    "c3 = CHR ''X'' \<or> c3 = CHR ''x''"
    by (rule marker_LUX)
  from assms(4) obtain d1 d2 d3 where m2: "m2 = [d1, d2, d3, CHR '':'']"
    "d1 = CHR ''S'' \<or> d1 = CHR ''s''" "d2 = CHR ''Q'' \<or> d2 = CHR ''q''"
    "d3 = CHR ''M'' \<or> d3 = CHR ''m''"
    by (rule marker_SQM)
  have l: "m1 \<noteq> []" "\<not> py_isspace (hd m1)" "\<not> py_isspace (last m1)" "length m1 = 4"
    "CHR '','' \<notin> set m1"
    using m1 by (auto simp: py_isspace_def)
  have s: "m2 \<noteq> []" "\<not> py_isspace (hd m2)" "\<not> py_isspace (last m2)" "length m2 = 4"
    using m2 by (auto simp: py_isspace_def)
  have "CHR '','' \<notin> set ?p" using assms(1,6) l(5) blank_no_comma by auto
  then have "split1 CHR '','' (?p @ CHR '','' # ?q) = [?p, ?q]" by (rule split1_first)
  then have parts: "split1 CHR '','' (w1 @ m1 @ a @ '','' @ w4 @ m2 @ b) = [?p, ?q]" by simp
  obtain r1 where r1: "strip ?p = m1 @ r1" using strip_keeps_marker [OF assms(1) l(1-3)] by blast
  obtain r2 where r2: "strip ?q = m2 @ r2" using strip_keeps_marker [OF assms(2) s(1-3)] by blast
  have "\<not> startswith (strip ?p) ''LUX:'' \<or> \<not> startswith (strip ?q) ''SQM:''"
  proof (rule ccontr)
    assume "\<not> ?thesis"
    then have "startswith (m1 @ r1) ''LUX:''" "startswith (m2 @ r2) ''SQM:''"
      using r1 r2 by simp_all
    then have "m1 = ''LUX:''" "m2 = ''SQM:''"
      using l(4) s(4) by (auto intro: startswith_same_length)
    then show False using assms(5) by simp
  qed
  with parts show ?thesis by (rule prefix_check_fails)
qed

text \<open>
  The line \<open>lux:1.0,sqm:2.0\<close>.
\<close>

theorem markers_case_sensitive_witness:
  "blank [] \<and> upper ''lux:'' = codepoints ''LUX:'' \<and> upper ''sqm:'' = codepoints ''SQM:''
   \<and> ''lux:'' \<noteq> ''LUX:'' \<and> CHR '','' \<notin> set ''1.0''
   \<and> parse_lux_sqm ''lux:1.0,sqm:2.0'' = Inl (NoMarkers ''lux:1.0,sqm:2.0'')"
proof -
  have w: "blank []" by simp
  have l: "upper ''lux:'' = codepoints ''LUX:''" by (simp add: upper_def upper_cp_def codepoints_def)
  have s: "upper ''sqm:'' = codepoints ''SQM:''" by (simp add: upper_def upper_cp_def codepoints_def)
  have d: "''lux:'' \<noteq> ''LUX:''" by simp
  have c: "CHR '','' \<notin> set ''1.0''" by simp
  have "parse_lux_sqm ''lux:1.0,sqm:2.0'' \<noteq> Inl (BadPrefix ''lux:1.0,sqm:2.0'')"
    by (simp add: eval_defs)
  then show ?thesis
    using w l s d c markers_case_sensitive [OF w w l s disjI1 [OF d] c, of "''2.0''"] by simp
qed

section \<open>Properties of a request\<close>

text \<open>
  C8. When no port is open (\<open>ser\<close> absent, or present and closed), a request shows the
  warning \<open>Not connected\<close> and does nothing else: no call is made on the port, so
  nothing is written and nothing is read, and the three display variables keep their
  contents.
\<close>

theorem not_connected_no_io:
  assumes "ser st = None \<or> ser st = Some \<lparr>is_open = False\<rparr>"
  shows "wire (get_reading t st) = wire st
       \<and> raw_var (get_reading t st) = raw_var st
       \<and> lux_var (get_reading t st) = lux_var st
       \<and> sqm_var (get_reading t st) = sqm_var st
       \<and> dialogs (get_reading t st)
           = dialogs st @ [ShowWarning ''Not connected'' ''Please connect to a serial port first.'']"
  using assms by (auto simp: get_reading_def connected_def show_box_def)

text \<open>
  A request in the state the script starts in.
\<close>

theorem not_connected_no_io_witness:
  "ser initial_state = None
   \<and> wire (get_reading \<lparr>fault = (\<lambda>c. None), reply = ''LUX:1,SQM:2''\<rparr> initial_state) = []
   \<and> raw_var (get_reading \<lparr>fault = (\<lambda>c. None), reply = ''LUX:1,SQM:2''\<rparr> initial_state) = []
   \<and> lux_var (get_reading \<lparr>fault = (\<lambda>c. None), reply = ''LUX:1,SQM:2''\<rparr> initial_state) = ''--''
   \<and> sqm_var (get_reading \<lparr>fault = (\<lambda>c. None), reply = ''LUX:1,SQM:2''\<rparr> initial_state) = ''--''
   \<and> dialogs (get_reading \<lparr>fault = (\<lambda>c. None), reply = ''LUX:1,SQM:2''\<rparr> initial_state)
       = [ShowWarning ''Not connected'' ''Please connect to a serial port first.'']"
proof -
  have n: "ser initial_state = None" by (simp add: initial_state_def)
  show ?thesis
    using n not_connected_no_io [OF disjI1 [OF n],
        of "\<lparr>fault = (\<lambda>c. None), reply = ''LUX:1,SQM:2''\<rparr>"]
    by (simp add: initial_state_def)
qed

text \<open>
  C9. Over an open port whose calls raise nothing, when the read gives an empty line,
  the request shows the warning \<open>Timeout\<close> and sets the raw field to \<open><no data>\<close>
  and the lux and sqm fields to \<open>--\<close>; the five calls of a request have been made.
\<close>

theorem timeout_resets_display:
  assumes "ser st = Some \<lparr>is_open = True\<rparr>"
    and "\<forall>c \<in> set request_calls. fault t c = None"
    and "reply t = []"
  shows "get_reading t st =
         st\<lparr>wire := wire st @ request_calls,
            dialogs := dialogs st @ [ShowWarning ''Timeout'' ''No data received (timeout).''],
            raw_var := ''<no data>'', lux_var := ''--'', sqm_var := ''--''\<rparr>"
proof -
  have "perform (fault t) request_calls = (request_calls, None)"
    using assms(2) by (rule perform_no_fault)
  moreover have "strip (reply t) = []" using assms(3) by (simp add: strip_def lstrip_def rstrip_def)
  ultimately show ?thesis
    using assms(1) by (simp add: get_reading_def connected_def show_box_def Let_def)
qed

text \<open>
  A request that times out after a reading had been displayed.
\<close>

theorem timeout_resets_display_witness:
  "get_reading \<lparr>fault = (\<lambda>c. None), reply = []\<rparr>
     (initial_state\<lparr>ser := Some \<lparr>is_open = True\<rparr>, raw_var := ''LUX:1,SQM:2'',
        lux_var := ''1'', sqm_var := ''2''\<rparr>)
   = \<lparr>ser = Some \<lparr>is_open = True\<rparr>,
      wire = [ResetInputBuffer, ResetOutputBuffer, Write [CHR ''R'', CHR 0x0A], Flush, Readline],
      raw_var = ''<no data>'', lux_var = ''--'', sqm_var = ''--'',
      status_var = ''Not connected'',
      dialogs = [ShowWarning ''Timeout'' ''No data received (timeout).'']\<rparr>"
proof -
  let ?t = "\<lparr>fault = (\<lambda>c. None), reply = []\<rparr> :: transport"
  let ?st = "initial_state\<lparr>ser := Some \<lparr>is_open = True\<rparr>, raw_var := ''LUX:1,SQM:2'',
        lux_var := ''1'', sqm_var := ''2''\<rparr>"
  have a: "ser ?st = Some \<lparr>is_open = True\<rparr>" by simp
  have b: "\<forall>c \<in> set request_calls. fault ?t c = None" by simp
  have c: "reply ?t = []" by simp
  show ?thesis using timeout_resets_display [OF a b c]
    by (simp add: initial_state_def request_calls_def)
qed

end
